theory Spec2Isabelle
  imports Complex_Main "HOL-Library.Sublist"
begin

section \<open>Python values and the string operations the crawler uses\<close>

text \<open>
  The exceptions that can be raised while \<open>main.py\<close> runs. \<open>RequestException\<close> stands for
  every failure of \<open>requests.get\<close> and of \<open>raise_for_status\<close> (transport error, timeout,
  non-2xx status); \<open>RetryError\<close> is what the retrying decorator raises when it gives up.
\<close>

datatype exn =
  RequestException | JSONDecodeError | TypeError | AttributeError | ValueError
  | OverflowError | IndexError | OSError | RetryError

text \<open>A Python float, as far as \<open>int()\<close> can tell floats apart.\<close>

datatype pyfloat = Finite rat | Infinite | NotANumber

text \<open>
  What \<open>json.loads\<close> returns. A decoded object is a dictionary; it is kept as an
  association list and read with \<open>map_of\<close>.
\<close>

datatype json =
  JNull | JBool bool | JInt int | JFloat pyfloat | JStr string
  | JList "json list" | JDict "(string \<times> json) list"

text \<open>\<open>s.split(sep)\<close> for a one-character separator: never empty, \<open>''.split(sep) == ['']\<close>.\<close>

fun split_on :: "char \<Rightarrow> string \<Rightarrow> string list" where
  "split_on sep [] = [[]]"
| "split_on sep (c # cs) =
     (if c = sep then [] # split_on sep cs
      else (case split_on sep cs of t # ts \<Rightarrow> (c # t) # ts | [] \<Rightarrow> [[c]]))"

text \<open>
  \<open>s.replace(old, '')\<close>: the occurrences of \<open>old\<close> are found from the left, without
  overlap, and every one of them is removed.
\<close>

function remove_all :: "string \<Rightarrow> string \<Rightarrow> string" where
  "remove_all old [] = []"
| "remove_all old (c # cs) =
     (if old \<noteq> [] \<and> prefix old (c # cs) then remove_all old (drop (length old) (c # cs))
      else c # remove_all old cs)"
  by pat_completeness auto
termination
  by (relation "measure (\<lambda>(old, s). length s)") auto

text \<open>
  \<open>xs[-k]\<close> for \<open>k > 0\<close>: the \<open>k\<close>-th element from the end, \<open>IndexError\<close> when the list is
  shorter than \<open>k\<close>.
\<close>

definition from_end :: "'a list \<Rightarrow> nat \<Rightarrow> exn + 'a" where
  "from_end xs k =
     (if 0 < k \<and> k \<le> length xs then Inr (xs ! (length xs - k)) else Inl IndexError)"

subsection \<open>\<open>int()\<close>\<close>

text \<open>
  \<open>int(s)\<close> on a string, base 10: surrounding white space is dropped, one sign is allowed,
  then decimal digits, where a single underscore may stand between two digits. Anything
  else is a \<open>ValueError\<close>, and so is a literal of more than 4300 digits (the interpreter's
  default limit, which the program never changes; signs, underscores and white space do
  not count). A character is a code point below 256. The white space of \<open>int()\<close> is not
  that of \<open>str.isspace\<close>: the separators 28 to 31 are not dropped.
\<close>

definition is_space :: "char \<Rightarrow> bool" where
  "is_space c = ((of_char c :: nat) \<in> {9, 10, 11, 12, 13, 32, 133, 160})"

definition is_digit :: "char \<Rightarrow> bool" where
  "is_digit c = (48 \<le> (of_char c :: nat) \<and> (of_char c :: nat) \<le> 57)"

definition digit_val :: "char \<Rightarrow> int" where
  "digit_val c = int (of_char c) - 48"

definition strip :: "string \<Rightarrow> string" where
  "strip s = rev (dropWhile is_space (rev (dropWhile is_space s)))"

fun digits_value :: "int \<Rightarrow> string \<Rightarrow> int option" where
  "digits_value acc [] = Some acc"
| "digits_value acc [c] = (if is_digit c then Some (acc * 10 + digit_val c) else None)"
| "digits_value acc (c # d # ds) =
     (if is_digit c then digits_value (acc * 10 + digit_val c) (d # ds)
      else if c = CHR ''_'' \<and> is_digit d then digits_value (acc * 10 + digit_val d) ds
      else None)"

definition int_literal :: "string \<Rightarrow> int option" where
  "int_literal s =
     (case s of [] \<Rightarrow> None
      | c # cs \<Rightarrow> if is_digit c then digits_value (digit_val c) cs else None)"

definition max_str_digits :: nat where
  "max_str_digits = 4300"

definition py_int_str :: "string \<Rightarrow> exn + int" where
  "py_int_str s =
     (let t = strip s;
          neg = (case t of c # cs \<Rightarrow> c = CHR ''-'' | [] \<Rightarrow> False);
          body = (case t of c # cs \<Rightarrow> if c = CHR ''-'' \<or> c = CHR ''+'' then cs else t | [] \<Rightarrow> t)
      in case int_literal body of
           None \<Rightarrow> Inl ValueError
         | Some n \<Rightarrow>
             if length (filter is_digit body) > max_str_digits then Inl ValueError
             else Inr (if neg then - n else n))"

text \<open>
  \<open>int(v)\<close> on a decoded JSON value: integers as they are, booleans as 0 and 1, a finite
  float truncated towards zero, strings parsed; \<open>None\<close>, lists and dictionaries are a
  \<open>TypeError\<close>.
\<close>

fun py_int :: "json \<Rightarrow> exn + int" where
  "py_int (JInt n) = Inr n"
| "py_int (JBool b) = Inr (if b then 1 else 0)"
| "py_int (JFloat (Finite q)) = Inr (if q < 0 then - \<lfloor>- q\<rfloor> else \<lfloor>q\<rfloor>)"
| "py_int (JFloat Infinite) = Inl OverflowError"
| "py_int (JFloat NotANumber) = Inl ValueError"
| "py_int (JStr s) = py_int_str s"
| "py_int JNull = Inl TypeError"
| "py_int (JList xs) = Inl TypeError"
| "py_int (JDict d) = Inl TypeError"

text \<open>\<open>d.get(k, default)\<close> on a dictionary.\<close>

definition dict_get :: "(string \<times> json) list \<Rightarrow> string \<Rightarrow> json \<Rightarrow> json" where
  "dict_get d k dflt = (case map_of d k of Some v \<Rightarrow> v | None \<Rightarrow> dflt)"

text \<open>\<open>v.split(" ")\<close>: only a string has the method.\<close>

fun py_split :: "json \<Rightarrow> exn + string list" where
  "py_split (JStr s) = Inr (split_on CHR '' '' s)"
| "py_split v = Inl AttributeError"

section \<open>The parsed document\<close>

text \<open>
  The tree that \<open>BeautifulSoup(content, 'lxml')\<close> builds. A document is the list of the
  root's children. \<open>OtherString\<close> is a string node that \<open>.text\<close> leaves out (a comment, a
  declaration); \<open>.string\<close> returns it like any other string.
\<close>

datatype node =
  NavigableString string
  | OtherString string
  | Tag string "(string \<times> string) list" "node list"

type_synonym soup = "node list"

text \<open>The tags below and including a node that satisfy a test, in document order.\<close>

fun tags_where :: "(string \<Rightarrow> (string \<times> string) list \<Rightarrow> bool) \<Rightarrow> node \<Rightarrow> node list" where
  "tags_where P (NavigableString s) = []"
| "tags_where P (OtherString s) = []"
| "tags_where P (Tag n attrs cs) =
     (if P n attrs then [Tag n attrs cs] else []) @ concat (map (tags_where P) cs)"

text \<open>\<open>soup.find_all(name)\<close>.\<close>

definition find_all :: "string \<Rightarrow> soup \<Rightarrow> node list" where
  "find_all name sp = concat (map (tags_where (\<lambda>n attrs. n = name)) sp)"

text \<open>\<open>soup.find("script", {"id": "tawsiyat-metadata", "type": "text/tawsiyat"})\<close>.\<close>

definition find_script :: "soup \<Rightarrow> node option" where
  "find_script sp =
     (case concat (map (tags_where (\<lambda>n attrs. n = ''script''
              \<and> map_of attrs ''id'' = Some ''tawsiyat-metadata''
              \<and> map_of attrs ''type'' = Some ''text/tawsiyat'')) sp) of
        [] \<Rightarrow> None
      | t # ts \<Rightarrow> Some t)"

text \<open>\<open>node.text\<close>: the strings below the node, concatenated.\<close>

fun get_text :: "node \<Rightarrow> string" where
  "get_text (NavigableString s) = s"
| "get_text (OtherString s) = []"
| "get_text (Tag n attrs cs) = concat (map get_text cs)"

text \<open>
  \<open>node.string\<close>: a string node is its own string; a tag has one only when it has exactly
  one child, and then it is that child's.
\<close>

fun node_string :: "node \<Rightarrow> string option" where
  "node_string (NavigableString s) = Some s"
| "node_string (OtherString s) = Some s"
| "node_string (Tag n attrs cs) = (case cs of [c] \<Rightarrow> node_string c | _ \<Rightarrow> None)"

section \<open>The article record and its extraction\<close>

text \<open>
  The dataclass \<open>Article\<close>. Python does not check the annotations: a field filled by
  \<open>metadata.get\<close> holds whatever JSON value the metadata has under that key.
\<close>

record Article =
  url :: string
  post_id :: json
  title :: json
  keywords_field :: "string list"
  thumbnail :: json
  publication_date :: json
  last_updated_date :: json
  author :: json
  content :: string
  video_duration :: json
  word_count :: int
  description :: json
  lang :: json
  classes :: json
  lite_url :: json

text \<open>
  Lines 72 and 73 of \<open>scrape\<close>: the metadata is the decoded content of the script element,
  and the empty dictionary when there is no such element. \<open>json.loads\<close> is a parameter:
  \<open>None\<close> is its \<open>JSONDecodeError\<close>. A script element without a single string raises
  \<open>TypeError\<close>, since \<open>json.loads(None)\<close> does.
\<close>

definition load_metadata :: "(string \<Rightarrow> json option) \<Rightarrow> soup \<Rightarrow> exn + json" where
  "load_metadata loads sp =
     (case find_script sp of
        None \<Rightarrow> Inr (JDict [])
      | Some script \<Rightarrow>
          (case node_string script of
             None \<Rightarrow> Inl TypeError
           | Some s \<Rightarrow> (case loads s of None \<Rightarrow> Inl JSONDecodeError | Some v \<Rightarrow> Inr v)))"

text \<open>Lines 75 to 77: every paragraph's text, each followed by a newline.\<close>

definition newline :: char where
  "newline = CHR 0x0A"

definition full_text :: "soup \<Rightarrow> string" where
  "full_text sp = concat (map (\<lambda>p. get_text p @ [newline]) (find_all ''p'' sp))"

text \<open>
  Lines 82 to 98: the constructor call. \<open>metadata.get\<close> raises \<open>AttributeError\<close> when the
  metadata is not a dictionary; of the arguments, only the split of the keywords and
  \<open>int()\<close> of the word count can raise after that.
\<close>

definition build_article :: "string \<Rightarrow> json \<Rightarrow> string \<Rightarrow> exn + Article" where
  "build_article u metadata txt =
     (case metadata of
        JDict d \<Rightarrow>
          (case py_split (dict_get d ''keywords'' (JStr [])) of
             Inl e \<Rightarrow> Inl e
           | Inr kw \<Rightarrow>
               (case py_int (dict_get d ''word_count'' (JInt 0)) of
                  Inl e \<Rightarrow> Inl e
                | Inr wc \<Rightarrow>
                    Inr \<lparr> url = u,
                          post_id = dict_get d ''postid'' (JStr []),
                          title = dict_get d ''title'' (JStr []),
                          keywords_field = kw,
                          thumbnail = dict_get d ''thumbnail'' (JStr []),
                          publication_date = dict_get d ''published_time'' (JStr []),
                          last_updated_date = dict_get d ''last_updated'' (JStr []),
                          author = dict_get d ''author'' (JStr []),
                          content = txt,
                          video_duration = dict_get d ''video_duration'' (JStr []),
                          word_count = wc,
                          description = dict_get d ''description'' (JStr []),
                          lang = dict_get d ''lang'' (JStr []),
                          classes = dict_get d ''classes'' (JList []),
                          lite_url = dict_get d ''lite_url'' (JStr []) \<rparr>))
      | _ \<Rightarrow> Inl AttributeError)"

text \<open>
  Lines 70 to 99, the part of \<open>scrape\<close> that works on the parsed page. The word count of
  line 80 is computed and dropped, so it does not appear.
\<close>

definition scrape_soup :: "(string \<Rightarrow> json option) \<Rightarrow> string \<Rightarrow> soup \<Rightarrow> exn + Article" where
  "scrape_soup loads u sp =
     (case load_metadata loads sp of
        Inl e \<Rightarrow> Inl e
      | Inr metadata \<Rightarrow> build_article u metadata (full_text sp))"

section \<open>The outside world and the effects of a run\<close>

text \<open>
  The world answers in the order it is asked. \<open>net w n u\<close> is the outcome of the \<open>n\<close>-th
  \<open>requests.get\<close> of the run (counted from 0) when it asks for \<open>u\<close>: \<open>Failed\<close> when the
  call or \<open>raise_for_status\<close> raises a \<open>RequestException\<close>, else the tree the parser
  builds from the body. The three disk fields answer the \<open>n\<close>-th call of \<open>save_to_json\<close>:
  whether the directory is there, whether \<open>os.makedirs\<close> raises, whether opening or
  writing the file raises.
\<close>

datatype response = Failed | Content soup

record world =
  net :: "nat \<Rightarrow> string \<Rightarrow> response"
  json_loads :: "string \<Rightarrow> json option"
  path_exists :: "nat \<Rightarrow> bool"
  makedirs_fails :: "nat \<Rightarrow> bool"
  write_fails :: "nat \<Rightarrow> bool"

text \<open>
  What a run does, in order: a request sent, a pause of the retrying decorator, an
  article appended to the accumulator (line 137), \<open>save_to_json\<close> entered with a batch
  (line 146), and its file written or not.
\<close>

datatype event =
  Request string
  | Sleep
  | Appended Article
  | Flush string string "Article list"
  | Written string "Article list"
  | WriteFailed string

record io =
  requests :: nat
  saves :: nat
  trace :: "event list"

definition emit :: "event \<Rightarrow> io \<Rightarrow> io" where
  "emit e s = s\<lparr>trace := trace s @ [e]\<rparr>"

definition http_get :: "world \<Rightarrow> string \<Rightarrow> io \<Rightarrow> response \<times> io" where
  "http_get w u s = (net w (requests s) u, emit (Request u) (s\<lparr>requests := Suc (requests s)\<rparr>))"

text \<open>
  The decorator \<open>@retry(stop=stop_after_attempt(n), wait=wait_exponential(...))\<close>: the
  function is called again, after a pause, each time it raises; when the \<open>n\<close>-th call
  raises too, \<open>RetryError\<close> is raised. A call that returns ends the retrying, whatever it
  returns.
\<close>

fun retry :: "nat \<Rightarrow> (io \<Rightarrow> (exn + 'a) \<times> io) \<Rightarrow> io \<Rightarrow> (exn + 'a) \<times> io" where
  "retry 0 f s = (Inl RetryError, s)"
| "retry (Suc n) f s =
     (case f s of
        (Inr v, s') \<Rightarrow> (Inr v, s')
      | (Inl e, s') \<Rightarrow> if n = 0 then (Inl RetryError, s') else retry n f (emit Sleep s'))"

section \<open>SitemapParser\<close>

definition sitemap_index_url :: string where
  "sitemap_index_url = ''https://www.almayadeen.net/sitemaps/all.xml''"

text \<open>
  The two methods have the same body: a \<open>RequestException\<close> is caught inside the
  decorated function, which then returns the empty list.
\<close>

definition get_monthly_sitemaps_body :: "world \<Rightarrow> io \<Rightarrow> (exn + string list) \<times> io" where
  "get_monthly_sitemaps_body w s =
     (case http_get w sitemap_index_url s of
        (Failed, s') \<Rightarrow> (Inr [], s')
      | (Content sp, s') \<Rightarrow> (Inr (map get_text (find_all ''loc'' sp)), s'))"

definition get_monthly_sitemaps :: "world \<Rightarrow> io \<Rightarrow> (exn + string list) \<times> io" where
  "get_monthly_sitemaps w = retry 3 (get_monthly_sitemaps_body w)"

definition get_article_urls_body :: "world \<Rightarrow> string \<Rightarrow> io \<Rightarrow> (exn + string list) \<times> io" where
  "get_article_urls_body w monthly_sitemap_url s =
     (case http_get w monthly_sitemap_url s of
        (Failed, s') \<Rightarrow> (Inr [], s')
      | (Content sp, s') \<Rightarrow> (Inr (map get_text (find_all ''loc'' sp)), s'))"

definition get_article_urls :: "world \<Rightarrow> string \<Rightarrow> io \<Rightarrow> (exn + string list) \<times> io" where
  "get_article_urls w monthly_sitemap_url = retry 3 (get_article_urls_body w monthly_sitemap_url)"

section \<open>ArticleScraper\<close>

text \<open>
  \<open>scrape\<close> catches every exception inside the decorated function and returns \<open>None\<close>.
\<close>

definition scrape_body :: "world \<Rightarrow> string \<Rightarrow> io \<Rightarrow> (exn + Article option) \<times> io" where
  "scrape_body w article_url s =
     (case http_get w article_url s of
        (Failed, s') \<Rightarrow> (Inr None, s')
      | (Content sp, s') \<Rightarrow>
          (case scrape_soup (json_loads w) article_url sp of
             Inl e \<Rightarrow> (Inr None, s')
           | Inr article \<Rightarrow> (Inr (Some article), s')))"

definition scrape :: "world \<Rightarrow> string \<Rightarrow> io \<Rightarrow> (exn + Article option) \<times> io" where
  "scrape w article_url = retry 3 (scrape_body w article_url)"

section \<open>FileUtility\<close>

text \<open>
  \<open>save_to_json\<close>: the directory is created outside the \<open>try\<close>, so a failure of
  \<open>os.makedirs\<close> leaves the function as an \<open>OSError\<close>; a failure to open or write the
  file is caught. Every article is truthy, so the whole batch is written.
\<close>

definition save_to_json ::
    "world \<Rightarrow> Article list \<Rightarrow> string \<Rightarrow> string \<Rightarrow> io \<Rightarrow> (exn + unit) \<times> io" where
  "save_to_json w articles year month s =
     (let n = saves s;
          s1 = emit (Flush year month articles) (s\<lparr>saves := Suc n\<rparr>);
          filepath = ''articles_'' @ year @ ''_'' @ month @ ''.json''
      in if \<not> path_exists w n \<and> makedirs_fails w n then (Inl OSError, s1)
         else if write_fails w n then (Inr (), emit (WriteFailed filepath) s1)
         else (Inr (), emit (Written filepath articles) s1))"

section \<open>main\<close>

text \<open>
  Line 145: \<open>sitemap_url.split('-')[-2]\<close> and
  \<open>sitemap_url.split('-')[-1].replace('.xml', '')\<close>, the first evaluated first.
\<close>

definition month_key :: "string \<Rightarrow> exn + string \<times> string" where
  "month_key sitemap_url =
     (case from_end (split_on CHR ''-'' sitemap_url) 2 of
        Inl e \<Rightarrow> Inl e
      | Inr year \<Rightarrow>
          (case from_end (split_on CHR ''-'' sitemap_url) 1 of
             Inl e \<Rightarrow> Inl e
           | Inr tok \<Rightarrow> Inr (year, remove_all ''.xml'' tok)))"

text \<open>The inner loop, lines 131 to 141, on the accumulator and the counter.\<close>

fun article_loop ::
    "world \<Rightarrow> nat \<Rightarrow> string list \<Rightarrow> Article list \<Rightarrow> nat \<Rightarrow> io
      \<Rightarrow> (exn + Article list \<times> nat) \<times> io" where
  "article_loop w max_articles [] articles article_count s = (Inr (articles, article_count), s)"
| "article_loop w max_articles (u # us) articles article_count s =
     (if article_count \<ge> max_articles then (Inr (articles, article_count), s)
      else (case scrape w u s of
              (Inl e, s') \<Rightarrow> (Inl e, s')
            | (Inr None, s') \<Rightarrow> article_loop w max_articles us articles article_count s'
            | (Inr (Some article), s') \<Rightarrow>
                article_loop w max_articles us (articles @ [article]) (Suc article_count)
                  (emit (Appended article) s')))"

text \<open>Lines 144 to 147: the flush of a month; the result is the accumulator afterwards.\<close>

definition flush_month ::
    "world \<Rightarrow> string \<Rightarrow> Article list \<Rightarrow> io \<Rightarrow> (exn + Article list) \<times> io" where
  "flush_month w sitemap_url articles s =
     (if articles \<noteq> [] then
        (case month_key sitemap_url of
           Inl e \<Rightarrow> (Inl e, s)
         | Inr (year, month) \<Rightarrow>
             (case save_to_json w articles year month s of
                (Inl e, s') \<Rightarrow> (Inl e, s')
              | (Inr _, s') \<Rightarrow> (Inr [], s')))
      else (Inr articles, s))"

text \<open>The outer loop, lines 126 to 147.\<close>

fun sitemap_loop ::
    "world \<Rightarrow> nat \<Rightarrow> string list \<Rightarrow> Article list \<Rightarrow> nat \<Rightarrow> io
      \<Rightarrow> (exn + Article list \<times> nat) \<times> io" where
  "sitemap_loop w max_articles [] articles article_count s = (Inr (articles, article_count), s)"
| "sitemap_loop w max_articles (sm # sms) articles article_count s =
     (if article_count \<ge> max_articles then (Inr (articles, article_count), s)
      else (case get_article_urls w sm s of
              (Inl e, s1) \<Rightarrow> (Inl e, s1)
            | (Inr article_urls, s1) \<Rightarrow>
                (case article_loop w max_articles article_urls articles article_count s1 of
                   (Inl e, s2) \<Rightarrow> (Inl e, s2)
                 | (Inr (articles2, count2), s2) \<Rightarrow>
                     (case flush_month w sm articles2 s2 of
                        (Inl e, s3) \<Rightarrow> (Inl e, s3)
                      | (Inr articles3, s3) \<Rightarrow>
                          sitemap_loop w max_articles sms articles3 count2 s3))))"

text \<open>
  \<open>main\<close> with the cap as a parameter, and \<open>main\<close> itself, where the cap is 10000. The
  result is the exception that ended the run, or the accumulator and the counter at the
  end, together with everything the run did.
\<close>

definition start :: io where
  "start = \<lparr>requests = 0, saves = 0, trace = []\<rparr>"

definition main_with_cap :: "world \<Rightarrow> nat \<Rightarrow> (exn + Article list \<times> nat) \<times> io" where
  "main_with_cap w max_articles =
     (case get_monthly_sitemaps w start of
        (Inl e, s) \<Rightarrow> (Inl e, s)
      | (Inr monthly_sitemaps, s) \<Rightarrow> sitemap_loop w max_articles monthly_sitemaps [] 0 s)"

definition main :: "world \<Rightarrow> (exn + Article list \<times> nat) \<times> io" where
  "main w = main_with_cap w 10000"

section \<open>The specification's wording, for comparison\<close>

text \<open>
  Paragraph texts separated by a newline, as the specification describes \<open>content\<close>:
  \<open>p1 + "\n" + p2 + ... + pn\<close>.
\<close>

fun newline_separated :: "string list \<Rightarrow> string" where
  "newline_separated [] = []"
| "newline_separated [t] = t"
| "newline_separated (t # ts) = t @ [newline] @ newline_separated ts"

text \<open>
  The month key as the specification words it: the second-to-last token of the URL split
  on the dash, and the last token without its \<open>.xml\<close> suffix.
\<close>

definition strip_suffix :: "string \<Rightarrow> string \<Rightarrow> string" where
  "strip_suffix suf s = (if suffix suf s then take (length s - length suf) s else s)"

definition month_key_spec :: "string \<Rightarrow> string \<times> string" where
  "month_key_spec sitemap_url =
     (let toks = split_on CHR ''-'' sitemap_url
      in (toks ! (length toks - 2), strip_suffix ''.xml'' (last toks)))"

section \<open>Reading a run's trace\<close>

text \<open>
  \<open>fresh_batches pending es\<close> walks a trace with the articles appended since the last
  flush: every batch handed to \<open>save_to_json\<close> must be exactly those articles, and the
  walk goes on from the empty accumulator.
\<close>

fun fresh_batches :: "Article list \<Rightarrow> event list \<Rightarrow> bool" where
  "fresh_batches pending [] = True"
| "fresh_batches pending (Appended a # es) = fresh_batches (pending @ [a]) es"
| "fresh_batches pending (Flush y m batch # es) = (batch = pending \<and> fresh_batches [] es)"
| "fresh_batches pending (Request u # es) = fresh_batches pending es"
| "fresh_batches pending (Sleep # es) = fresh_batches pending es"
| "fresh_batches pending (Written f b # es) = fresh_batches pending es"
| "fresh_batches pending (WriteFailed f # es) = fresh_batches pending es"

text \<open>The articles appended since the last flush of a trace.\<close>

fun pending_after :: "Article list \<Rightarrow> event list \<Rightarrow> Article list" where
  "pending_after pending [] = pending"
| "pending_after pending (Appended a # es) = pending_after (pending @ [a]) es"
| "pending_after pending (Flush y m batch # es) = pending_after [] es"
| "pending_after pending (Request u # es) = pending_after pending es"
| "pending_after pending (Sleep # es) = pending_after pending es"
| "pending_after pending (Written f b # es) = pending_after pending es"
| "pending_after pending (WriteFailed f # es) = pending_after pending es"

text \<open>
  \<open>capped_requests cap n es\<close> walks a trace with the number of articles appended so far: that
  number never passes the cap, and a request is sent only while the number is under the
  cap. It is meant for what the loops add to the trace, after the request for the
  sitemap index.
\<close>

fun capped_requests :: "nat \<Rightarrow> nat \<Rightarrow> event list \<Rightarrow> bool" where
  "capped_requests cap n [] = True"
| "capped_requests cap n (Appended a # es) = (Suc n \<le> cap \<and> capped_requests cap (Suc n) es)"
| "capped_requests cap n (Request u # es) = (n < cap \<and> capped_requests cap n es)"
| "capped_requests cap n (Flush y m batch # es) = capped_requests cap n es"
| "capped_requests cap n (Sleep # es) = capped_requests cap n es"
| "capped_requests cap n (Written f b # es) = capped_requests cap n es"
| "capped_requests cap n (WriteFailed f # es) = capped_requests cap n es"

fun appended_count :: "event list \<Rightarrow> nat" where
  "appended_count [] = 0"
| "appended_count (Appended a # es) = Suc (appended_count es)"
| "appended_count (e # es) = appended_count es"

text \<open>
  The accumulator agrees with a trace: the trace's batches were fresh, and the
  accumulator holds what was appended since the last flush.
\<close>

definition accounted :: "Article list \<Rightarrow> io \<Rightarrow> bool" where
  "accounted articles s = (fresh_batches [] (trace s) \<and> pending_after [] (trace s) = articles)"

section \<open>Example pages and worlds\<close>

text \<open>A decoder for the few script contents the examples use.\<close>

definition example_loads :: "string \<Rightarrow> json option" where
  "example_loads s =
     (if s = ''{}'' then Some (JDict [])
      else if s = ''{word_count: abc}'' then Some (JDict [(''word_count'', JStr ''abc'')])
      else if s = ''{word_count: 7}'' then Some (JDict [(''word_count'', JInt 7)])
      else None)"

definition metadata_script :: "string \<Rightarrow> node" where
  "metadata_script s =
     Tag ''script'' [(''id'', ''tawsiyat-metadata''), (''type'', ''text/tawsiyat'')]
       [NavigableString s]"

definition page :: "string \<Rightarrow> string list \<Rightarrow> soup" where
  "page script_text paragraphs =
     [Tag ''html'' []
        [Tag ''head'' [] [metadata_script script_text],
         Tag ''body'' [] (map (\<lambda>t. Tag ''p'' [] [NavigableString t]) paragraphs)]]"

definition sitemap :: "string list \<Rightarrow> soup" where
  "sitemap locs =
     [Tag ''html'' [] [Tag ''body'' []
        [Tag ''urlset'' [] (map (\<lambda>u. Tag ''url'' [] [Tag ''loc'' [] [NavigableString u]]) locs)]]]"

definition steady_disk :: "(nat \<Rightarrow> string \<Rightarrow> response) \<Rightarrow> world" where
  "steady_disk n =
     \<lparr>net = n, json_loads = example_loads, path_exists = (\<lambda>k. True),
      makedirs_fails = (\<lambda>k. False), write_fails = (\<lambda>k. False)\<rparr>"

text \<open>A world in which every page carries a word count that is not a number.\<close>

definition bad_count_world :: world where
  "bad_count_world = steady_disk (\<lambda>k u. Content (page ''{word_count: abc}'' [''some text'']))"

text \<open>A world in which every request fails.\<close>

definition dead_world :: world where
  "dead_world = steady_disk (\<lambda>k u. Failed)"

text \<open>
  Two months of one article each: the index, then the first month's sitemap and its
  article, then the second month's.
\<close>

definition two_months_net :: "nat \<Rightarrow> string \<Rightarrow> response" where
  "two_months_net k u =
     (if k = 0 then Content (sitemap [''https://host/sitemap-2024-4.xml'',
                                       ''https://host/sitemap-2024-5.xml''])
      else if k = 1 then Content (sitemap [''https://host/a1''])
      else if k = 2 then Content (page ''{}'' [''one''])
      else if k = 3 then Content (sitemap [''https://host/a2''])
      else if k = 4 then Content (page ''{word_count: 7}'' [''two''])
      else Failed)"

definition two_months :: world where
  "two_months = steady_disk two_months_net"

text \<open>
  A month whose sitemap URL has no dash, followed by a regular one; each answers with
  one article.
\<close>

definition dashless_net :: "nat \<Rightarrow> string \<Rightarrow> response" where
  "dashless_net k u =
     (if k = 0 then Content (sitemap [''https://www.almayadeen.net/sitemaps/2024.xml'',
                                       ''https://www.almayadeen.net/sitemaps/all/sitemap-2024-5.xml''])
      else if k = 1 then Content (sitemap [''https://www.almayadeen.net/a1''])
      else Content (page ''{}'' [''one'']))"

definition dashless_world :: world where
  "dashless_world = steady_disk dashless_net"

text \<open>Regular months, on a disk where the output directory is missing and cannot be made.\<close>

definition no_directory_world :: world where
  "no_directory_world =
     \<lparr>net = two_months_net, json_loads = example_loads, path_exists = (\<lambda>k. False),
      makedirs_fails = (\<lambda>k. True), write_fails = (\<lambda>k. False)\<rparr>"

text \<open>
  One month under a URL without a dash, whose sitemap lists 10000 article URLs that all
  answer with a page.
\<close>

definition full_month_net :: "nat \<Rightarrow> string \<Rightarrow> response" where
  "full_month_net k u =
     (if k = 0 then Content [Tag ''loc'' [] [NavigableString ''https://www.almayadeen.net/sitemaps/2024.xml'']]
      else if k = 1 then Content (replicate 10000 (Tag ''loc'' [] [NavigableString ''https://www.almayadeen.net/a'']))
      else Content [])"

definition full_month_world :: world where
  "full_month_world = steady_disk full_month_net"

section \<open>What the decorated functions do\<close>

text \<open>
  None of the three decorated functions ever raises in this model, so the decorator calls
  each of them exactly once: one request is sent, and the result is read off the answer.
\<close>

lemma get_monthly_sitemaps_eq:
  "get_monthly_sitemaps w s =
     (Inr (case net w (requests s) sitemap_index_url of
             Failed \<Rightarrow> []
           | Content sp \<Rightarrow> map get_text (find_all ''loc'' sp)),
      emit (Request sitemap_index_url) (s\<lparr>requests := Suc (requests s)\<rparr>))"
  by (simp add: get_monthly_sitemaps_def get_monthly_sitemaps_body_def http_get_def
      numeral_3_eq_3 split: response.splits)

lemma get_article_urls_eq:
  "get_article_urls w u s =
     (Inr (case net w (requests s) u of
             Failed \<Rightarrow> []
           | Content sp \<Rightarrow> map get_text (find_all ''loc'' sp)),
      emit (Request u) (s\<lparr>requests := Suc (requests s)\<rparr>))"
  by (simp add: get_article_urls_def get_article_urls_body_def http_get_def
      numeral_3_eq_3 split: response.splits)

lemma scrape_eq:
  "scrape w u s =
     (Inr (case net w (requests s) u of
             Failed \<Rightarrow> None
           | Content sp \<Rightarrow>
               (case scrape_soup (json_loads w) u sp of Inl e \<Rightarrow> None | Inr a \<Rightarrow> Some a)),
      emit (Request u) (s\<lparr>requests := Suc (requests s)\<rparr>))"
  by (simp add: scrape_def scrape_body_def http_get_def numeral_3_eq_3
      split: response.splits sum.splits)

lemmas page_defs = page_def metadata_script_def sitemap_def find_script_def find_all_def
  load_metadata_def full_text_def build_article_def scrape_soup_def example_loads_def
  dict_get_def

lemmas run_defs = main_def main_with_cap_def get_monthly_sitemaps_eq get_article_urls_eq
  scrape_eq flush_month_def save_to_json_def month_key_def from_end_def start_def emit_def
  steady_disk_def sitemap_index_url_def

section \<open>Extraction\<close>

text \<open>
  C1. A page whose metadata block is the empty object is scraped without an error, and
  every metadata field of the article has its default, except the keywords: they are the
  list holding one empty string, since \<open>''.split(" ")\<close> is \<open>['']\<close>, not the empty list.
\<close>

theorem empty_metadata_keywords_hold_empty_string:
  "scrape_soup example_loads ''https://www.almayadeen.net/a1'' (page ''{}'' [''Hello'']) =
     Inr \<lparr>url = ''https://www.almayadeen.net/a1'', post_id = JStr [], title = JStr [],
          keywords_field = [[]], thumbnail = JStr [], publication_date = JStr [],
          last_updated_date = JStr [], author = JStr [], content = ''Hello'' @ [newline],
          video_duration = JStr [], word_count = 0, description = JStr [], lang = JStr [],
          classes = JList [], lite_url = JStr []\<rparr>"
  by (simp add: page_defs)

text \<open>
  Two values on which \<open>int()\<close> raises although they hold digits only, apart from white
  space: a digit string behind the unit separator (code point 31), and any string with
  more than 4300 digits.
\<close>

lemma separator_is_not_white_space:
  "py_int (JStr (CHR 0x1F # ''12'')) = Inl ValueError
   \<and> py_int (JStr (CHR 0xA0 # ''12'')) = Inr 12"
  by (simp add: py_int_str_def strip_def is_space_def int_literal_def is_digit_def digit_val_def
      max_str_digits_def)

lemma space_is_not_digit: "is_space c \<Longrightarrow> \<not> is_digit c"
  by (auto simp: is_space_def is_digit_def)

lemma digits_of_dropWhile: "filter is_digit (dropWhile is_space s) = filter is_digit s"
  by (induction s) (auto simp: space_is_not_digit)

lemma digits_of_strip: "filter is_digit (strip s) = filter is_digit s"
proof -
  have "filter is_digit (strip s) = rev (filter is_digit (dropWhile is_space (rev (dropWhile is_space s))))"
    by (simp add: strip_def rev_filter)
  also have "\<dots> = rev (filter is_digit (rev (dropWhile is_space s)))"
    by (simp only: digits_of_dropWhile)
  also have "\<dots> = filter is_digit s"
    by (simp add: rev_filter digits_of_dropWhile)
  finally show ?thesis .
qed

lemma long_literal_raises:
  assumes "max_str_digits < length (filter is_digit s)"
  shows "py_int (JStr s) = Inl ValueError"
proof -
  let ?t = "strip s"
  let ?body = "case ?t of c # cs \<Rightarrow> if c = CHR ''-'' \<or> c = CHR ''+'' then cs else ?t | [] \<Rightarrow> ?t"
  have "filter is_digit ?body = filter is_digit ?t"
    by (cases ?t) (auto simp: is_digit_def)
  with assms have "max_str_digits < length (filter is_digit ?body)"
    by (simp add: digits_of_strip)
  then show ?thesis
    by (simp add: py_int_str_def Let_def split: option.splits)
qed

lemma build_article_bad_word_count:
  "map_of d ''word_count'' = Some v \<Longrightarrow> py_int v = Inl e \<Longrightarrow>
     \<exists>e'. build_article u (JDict d) txt = Inl e'"
  by (simp add: build_article_def dict_get_def split: sum.splits)

text \<open>
  C3. When the metadata of a page has a \<open>word_count\<close> on which \<open>int()\<close> raises, the
  extraction ends in an exception and no article is built; \<open>scrape\<close> returns \<open>None\<close>
  after its single request, and the inner loop of \<open>main\<close> goes on with the next URL,
  the accumulator and the counter unchanged.
\<close>

theorem non_numeric_word_count_is_skipped:
  assumes page: "net w (requests s) u = Content sp"
    and meta: "load_metadata (json_loads w) sp = Inr (JDict d)"
    and key: "map_of d ''word_count'' = Some v"
    and bad: "py_int v = Inl e"
  shows "(\<exists>e'. scrape_soup (json_loads w) u sp = Inl e')
     \<and> scrape w u s = (Inr None, emit (Request u) (s\<lparr>requests := Suc (requests s)\<rparr>))
     \<and> (article_count < max_articles \<longrightarrow>
          article_loop w max_articles (u # us) articles article_count s =
          article_loop w max_articles us articles article_count
            (emit (Request u) (s\<lparr>requests := Suc (requests s)\<rparr>)))"
proof -
  from build_article_bad_word_count[OF key bad]
  obtain e' where "build_article u (JDict d) (full_text sp) = Inl e'" by blast
  then have soup: "scrape_soup (json_loads w) u sp = Inl e'"
    by (simp add: scrape_soup_def meta)
  have scr: "scrape w u s = (Inr None, emit (Request u) (s\<lparr>requests := Suc (requests s)\<rparr>))"
    by (simp add: scrape_eq page soup)
  from soup scr show ?thesis by simp
qed

theorem non_numeric_word_count_is_skipped_witness:
  "net bad_count_world (requests start) ''https://host/a1''
     = Content (page ''{word_count: abc}'' [''some text''])
   \<and> load_metadata (json_loads bad_count_world) (page ''{word_count: abc}'' [''some text''])
     = Inr (JDict [(''word_count'', JStr ''abc'')])
   \<and> map_of [(''word_count'', JStr ''abc'')] ''word_count'' = Some (JStr ''abc'')
   \<and> py_int (JStr ''abc'') = Inl ValueError
   \<and> scrape bad_count_world ''https://host/a1'' start
     = (Inr None, \<lparr>requests = 1, saves = 0, trace = [Request ''https://host/a1'']\<rparr>)
   \<and> article_loop bad_count_world 10000 [''https://host/a1''] [] 0 start
     = (Inr ([], 0), \<lparr>requests = 1, saves = 0, trace = [Request ''https://host/a1'']\<rparr>)"
proof -
  have h1: "net bad_count_world (requests start) ''https://host/a1''
      = Content (page ''{word_count: abc}'' [''some text''])"
    by (simp add: bad_count_world_def steady_disk_def)
  have h2: "load_metadata (json_loads bad_count_world) (page ''{word_count: abc}'' [''some text''])
      = Inr (JDict [(''word_count'', JStr ''abc'')])"
    by (simp add: bad_count_world_def steady_disk_def page_defs)
  have h3: "map_of [(''word_count'', JStr ''abc'')] ''word_count'' = Some (JStr ''abc'')"
    by simp
  have h4: "py_int (JStr ''abc'') = Inl ValueError"
    by (simp add: py_int_str_def strip_def is_space_def int_literal_def is_digit_def)
  from non_numeric_word_count_is_skipped[OF h1 h2 h3 h4,
      of 0 10000 "[]" "[]"] h1 h2 h3 h4
  show ?thesis by (simp add: start_def emit_def)
qed

lemma newline_separated_terminated:
  "ts \<noteq> [] \<Longrightarrow> concat (map (\<lambda>t. t @ [newline]) ts) = newline_separated ts @ [newline]"
  by (induction ts rule: newline_separated.induct) auto

lemma scrape_soup_content:
  "scrape_soup loads u sp = Inr a \<Longrightarrow> content a = full_text sp"
  by (auto simp: scrape_soup_def build_article_def split: sum.splits json.splits)

text \<open>
  C9, as the specification states it, fails on a page with the single paragraph
  \<open>Hello\<close>: the content is \<open>Hello\<close> followed by a newline, while the paragraphs
  separated by newlines are \<open>Hello\<close> alone.
\<close>

theorem content_is_not_newline_separated:
  "scrape_soup example_loads ''https://host/a1'' (page ''{}'' [''Hello'']) =
     Inr \<lparr>url = ''https://host/a1'', post_id = JStr [], title = JStr [],
          keywords_field = [[]], thumbnail = JStr [], publication_date = JStr [],
          last_updated_date = JStr [], author = JStr [], content = ''Hello'' @ [newline],
          video_duration = JStr [], word_count = 0, description = JStr [], lang = JStr [],
          classes = JList [], lite_url = JStr []\<rparr>
   \<and> ''Hello'' @ [newline]
       \<noteq> newline_separated (map get_text (find_all ''p'' (page ''{}'' [''Hello''])))"
  by (simp add: page_defs)

text \<open>
  C9, amended. On every page that is scraped with success, the content is the text of
  each paragraph element, in document order, each followed by a newline: the
  newline-separated paragraphs and one more newline at the end when there is a
  paragraph, and the empty string when there is none.
\<close>

theorem content_is_newline_terminated:
  assumes "scrape_soup loads u sp = Inr a"
  shows "content a = concat (map (\<lambda>p. get_text p @ [newline]) (find_all ''p'' sp))
     \<and> (find_all ''p'' sp \<noteq> [] \<longrightarrow>
          content a = newline_separated (map get_text (find_all ''p'' sp)) @ [newline])
     \<and> (find_all ''p'' sp = [] \<longrightarrow> content a = [])"
  using scrape_soup_content[OF assms]
    newline_separated_terminated[of "map get_text (find_all ''p'' sp)"]
  by (simp add: full_text_def map_map comp_def)

theorem content_is_newline_terminated_witness:
  "scrape_soup example_loads ''https://host/a1'' (page ''{}'' [''one'', ''two''])
     = Inr \<lparr>url = ''https://host/a1'', post_id = JStr [], title = JStr [],
          keywords_field = [[]], thumbnail = JStr [], publication_date = JStr [],
          last_updated_date = JStr [], author = JStr [],
          content = ''one'' @ [newline] @ ''two'' @ [newline],
          video_duration = JStr [], word_count = 0, description = JStr [], lang = JStr [],
          classes = JList [], lite_url = JStr []\<rparr>
   \<and> ''one'' @ [newline] @ ''two'' @ [newline]
       = newline_separated (map get_text (find_all ''p'' (page ''{}'' [''one'', ''two'']))) @ [newline]"
proof -
  have h: "scrape_soup example_loads ''https://host/a1'' (page ''{}'' [''one'', ''two''])
     = Inr \<lparr>url = ''https://host/a1'', post_id = JStr [], title = JStr [],
          keywords_field = [[]], thumbnail = JStr [], publication_date = JStr [],
          last_updated_date = JStr [], author = JStr [],
          content = ''one'' @ [newline] @ ''two'' @ [newline],
          video_duration = JStr [], word_count = 0, description = JStr [], lang = JStr [],
          classes = JList [], lite_url = JStr []\<rparr>"
    by (simp add: page_defs)
  have ne: "find_all ''p'' (page ''{}'' [''one'', ''two'']) \<noteq> []"
    by (simp add: page_defs)
  let ?a = "\<lparr>url = ''https://host/a1'', post_id = JStr [], title = JStr [],
          keywords_field = [[]], thumbnail = JStr [], publication_date = JStr [],
          last_updated_date = JStr [], author = JStr [],
          content = ''one'' @ [newline] @ ''two'' @ [newline],
          video_duration = JStr [], word_count = 0, description = JStr [], lang = JStr [],
          classes = JList [], lite_url = JStr []\<rparr>"
  from content_is_newline_terminated[OF h] ne
  have c: "content ?a
       = newline_separated (map get_text (find_all ''p'' (page ''{}'' [''one'', ''two'']))) @ [newline]"
    by blast
  have e: "''one'' @ [newline] @ ''two'' @ [newline] = content ?a" by simp
  from e c have "''one'' @ [newline] @ ''two'' @ [newline]
       = newline_separated (map get_text (find_all ''p'' (page ''{}'' [''one'', ''two'']))) @ [newline]"
    by (rule trans)
  with h show ?thesis by blast
qed

lemma scrape_soup_word_count:
  "scrape_soup loads u sp = Inr a \<Longrightarrow> load_metadata loads sp = Inr m \<Longrightarrow>
     \<exists>d. m = JDict d \<and> py_int (dict_get d ''word_count'' (JInt 0)) = Inr (word_count a)"
  by (auto simp: scrape_soup_def build_article_def split: sum.splits json.splits)

text \<open>
  C10. Two pages with the same metadata object, both scraped with success, give the same
  word count, whatever their paragraphs are: it is \<open>int()\<close> of the metadata's
  \<open>word_count\<close>, or of 0 when the key is missing.
\<close>

theorem word_count_from_metadata_only:
  assumes "load_metadata loads sp1 = Inr m" and "load_metadata loads sp2 = Inr m"
    and "scrape_soup loads u1 sp1 = Inr a1" and "scrape_soup loads u2 sp2 = Inr a2"
  shows "word_count a1 = word_count a2
     \<and> (\<exists>d. m = JDict d \<and> py_int (dict_get d ''word_count'' (JInt 0)) = Inr (word_count a1))"
  using scrape_soup_word_count[OF assms(3) assms(1)] scrape_soup_word_count[OF assms(4) assms(2)]
  by auto

theorem word_count_from_metadata_only_witness:
  "load_metadata example_loads (page ''{word_count: 7}'' [''one two''])
     = Inr (JDict [(''word_count'', JInt 7)])
   \<and> load_metadata example_loads (page ''{word_count: 7}'' [''a b c'', ''d e''])
     = Inr (JDict [(''word_count'', JInt 7)])
   \<and> full_text (page ''{word_count: 7}'' [''one two''])
     \<noteq> full_text (page ''{word_count: 7}'' [''a b c'', ''d e''])
   \<and> map_sum id word_count
       (scrape_soup example_loads ''https://host/a1'' (page ''{word_count: 7}'' [''one two'']))
     = Inr 7
   \<and> map_sum id word_count
       (scrape_soup example_loads ''https://host/a2'' (page ''{word_count: 7}'' [''a b c'', ''d e'']))
     = Inr 7"
proof -
  have m1: "load_metadata example_loads (page ''{word_count: 7}'' [''one two''])
     = Inr (JDict [(''word_count'', JInt 7)])"
    by (simp add: page_defs)
  have m2: "load_metadata example_loads (page ''{word_count: 7}'' [''a b c'', ''d e''])
     = Inr (JDict [(''word_count'', JInt 7)])"
    by (simp add: page_defs)
  obtain a1 where s1: "scrape_soup example_loads ''https://host/a1''
      (page ''{word_count: 7}'' [''one two'']) = Inr a1"
    by (simp add: page_defs)
  obtain a2 where s2: "scrape_soup example_loads ''https://host/a2''
      (page ''{word_count: 7}'' [''a b c'', ''d e'']) = Inr a2"
    by (simp add: page_defs)
  have ft: "full_text (page ''{word_count: 7}'' [''one two''])
     \<noteq> full_text (page ''{word_count: 7}'' [''a b c'', ''d e''])"
    by (simp add: page_defs)
  from word_count_from_metadata_only[OF m1 m2 s1 s2]
  have "word_count a1 = 7 \<and> word_count a2 = 7" by (auto simp: dict_get_def)
  with m1 m2 s1 s2 ft show ?thesis by simp
qed

section \<open>Requests and retries\<close>

text \<open>
  C4. Where every request fails, each of the three decorated functions sends one request
  and returns (the empty list, or \<open>None\<close>): the failure is caught inside the function, so
  the decorator sees a normal return and never calls it again.
\<close>

theorem failed_request_is_not_retried:
  "get_monthly_sitemaps dead_world start =
      (Inr [], \<lparr>requests = 1, saves = 0, trace = [Request sitemap_index_url]\<rparr>)
   \<and> get_article_urls dead_world ''https://www.almayadeen.net/sitemaps/all/sitemap-2024-5.xml'' start =
      (Inr [], \<lparr>requests = 1, saves = 0,
                trace = [Request ''https://www.almayadeen.net/sitemaps/all/sitemap-2024-5.xml'']\<rparr>)
   \<and> scrape dead_world ''https://www.almayadeen.net/a1'' start =
      (Inr None, \<lparr>requests = 1, saves = 0, trace = [Request ''https://www.almayadeen.net/a1'']\<rparr>)"
  by (simp add: get_monthly_sitemaps_eq get_article_urls_eq scrape_eq dead_world_def
      steady_disk_def start_def emit_def)

section \<open>The run\<close>

text \<open>
  C8. Two runs that end in an exception. In the first, the first month's sitemap URL has
  no dash: after its article is scraped, line 145 raises \<open>IndexError\<close>, nothing is saved
  and the second month is never asked for. In the second, the output directory is
  missing and cannot be created: \<open>save_to_json\<close> raises \<open>OSError\<close> outside its \<open>try\<close>, and
  the second month is never asked for either.
\<close>

theorem uncaught_exceptions_end_the_run:
  "fst (main dashless_world) = Inl IndexError
   \<and> requests (snd (main dashless_world)) = 3
   \<and> saves (snd (main dashless_world)) = 0
   \<and> fst (main no_directory_world) = Inl OSError
   \<and> requests (snd (main no_directory_world)) = 3"
proof -
  have "fst (main dashless_world) = Inl IndexError
     \<and> requests (snd (main dashless_world)) = 3 \<and> saves (snd (main dashless_world)) = 0"
    by (simp add: run_defs dashless_world_def dashless_net_def page_defs)
  moreover have "fst (main no_directory_world) = Inl OSError
     \<and> requests (snd (main no_directory_world)) = 3"
    by (simp add: run_defs no_directory_world_def two_months_net_def page_defs)
  ultimately show ?thesis by simp
qed

subsection \<open>Batches\<close>

lemma fresh_batches_append:
  "fresh_batches p (es @ es') = (fresh_batches p es \<and> fresh_batches (pending_after p es) es')"
  by (induction p es rule: fresh_batches.induct) auto

lemma pending_after_append:
  "pending_after p (es @ es') = pending_after (pending_after p es) es'"
  by (induction p es rule: pending_after.induct) auto

lemma accounted_request:
  "accounted arts s \<Longrightarrow> accounted arts (emit (Request u) (s\<lparr>requests := n\<rparr>))"
  by (simp add: accounted_def emit_def fresh_batches_append pending_after_append)

lemma accounted_appended: "accounted arts s \<Longrightarrow> accounted (arts @ [a]) (emit (Appended a) s)"
  by (simp add: accounted_def emit_def fresh_batches_append pending_after_append)

lemma article_loop_accounted:
  "accounted arts s \<Longrightarrow> article_loop w cap us arts cnt s = (r, s') \<Longrightarrow>
     fresh_batches [] (trace s') \<and> (\<forall>arts' cnt'. r = Inr (arts', cnt') \<longrightarrow> accounted arts' s')"
proof (induction us arbitrary: arts cnt s)
  case Nil
  then show ?case by (auto simp: accounted_def)
next
  case (Cons u us)
  show ?case
  proof (cases "cap \<le> cnt")
    case True
    with Cons.prems show ?thesis by (auto simp: accounted_def)
  next
    case False
    let ?s1 = "emit (Request u) (s\<lparr>requests := Suc (requests s)\<rparr>)"
    have acc1: "accounted arts ?s1" using Cons.prems(1) by (rule accounted_request)
    show ?thesis
    proof (cases "fst (scrape w u s)")
      case (Inl e)
      then show ?thesis by (simp add: scrape_eq)
    next
      case (Inr res)
      show ?thesis
      proof (cases res)
        case None
        with Inr False Cons.prems(2) have "article_loop w cap us arts cnt ?s1 = (r, s')"
          by (simp add: scrape_eq)
        from Cons.IH[OF acc1 this] show ?thesis .
      next
        case (Some a)
        with Inr False Cons.prems(2)
        have "article_loop w cap us (arts @ [a]) (Suc cnt) (emit (Appended a) ?s1) = (r, s')"
          by (simp add: scrape_eq)
        from Cons.IH[OF accounted_appended[OF acc1] this] show ?thesis .
      qed
    qed
  qed
qed

lemma flush_month_accounted:
  "accounted arts s \<Longrightarrow> flush_month w sm arts s = (r, s') \<Longrightarrow>
     fresh_batches [] (trace s') \<and> (\<forall>arts'. r = Inr arts' \<longrightarrow> arts' = [] \<and> accounted arts' s')"
  by (auto simp: flush_month_def save_to_json_def accounted_def emit_def Let_def
      fresh_batches_append pending_after_append split: if_splits sum.splits prod.splits)

lemma sitemap_loop_accounted:
  "accounted arts s \<Longrightarrow> sitemap_loop w cap sms arts cnt s = (r, s') \<Longrightarrow>
     fresh_batches [] (trace s') \<and> (\<forall>arts' cnt'. r = Inr (arts', cnt') \<longrightarrow> accounted arts' s')"
proof (induction sms arbitrary: arts cnt s)
  case Nil
  then show ?case by (auto simp: accounted_def)
next
  case (Cons sm sms)
  show ?case
  proof (cases "cap \<le> cnt")
    case True
    with Cons.prems show ?thesis by (auto simp: accounted_def)
  next
    case False
    obtain urls s1 where g: "get_article_urls w sm s = (Inr urls, s1)" and acc1: "accounted arts s1"
      using accounted_request[OF Cons.prems(1)] by (simp add: get_article_urls_eq)
    obtain r2 s2 where a: "article_loop w cap urls arts cnt s1 = (r2, s2)" by fastforce
    note inner = article_loop_accounted[OF acc1 a]
    show ?thesis
    proof (cases r2)
      case (Inl e)
      with False g a Cons.prems(2) inner show ?thesis by auto
    next
      case (Inr p)
      obtain arts2 cnt2 where p: "p = (arts2, cnt2)" by fastforce
      with Inr inner have acc2: "accounted arts2 s2" by simp
      obtain r3 s3 where f: "flush_month w sm arts2 s2 = (r3, s3)" by fastforce
      note fl = flush_month_accounted[OF acc2 f]
      show ?thesis
      proof (cases r3)
        case (Inl e)
        with False g a Inr p f Cons.prems(2) fl show ?thesis by auto
      next
        case (Inr arts3)
        with fl have acc3: "accounted arts3 s3" by blast
        from False g a \<open>r2 = Inr p\<close> p f Inr Cons.prems(2)
        have "sitemap_loop w cap sms arts3 cnt2 s3 = (r, s')" by simp
        from Cons.IH[OF acc3 this] show ?thesis .
      qed
    qed
  qed
qed

text \<open>
  C6. In every run, whatever the cap, each batch handed to \<open>save_to_json\<close> holds exactly
  the articles appended since the batch before it was handed over, so no article is
  flushed twice; and the accumulator that the flush of a month leaves behind is empty.
\<close>

theorem flush_clears_accumulator:
  "fresh_batches [] (trace (snd (main_with_cap w cap)))
   \<and> (flush_month w sm arts s = (Inr arts', s') \<longrightarrow> arts' = [])"
proof -
  have acc0: "accounted []
      (emit (Request sitemap_index_url) (start\<lparr>requests := Suc (requests start)\<rparr>))"
    by (rule accounted_request) (simp add: accounted_def start_def)
  obtain r sf where m: "main_with_cap w cap = (r, sf)" by fastforce
  then have "sitemap_loop w cap
      (case net w (requests start) sitemap_index_url of
         Failed \<Rightarrow> [] | Content sp \<Rightarrow> map get_text (find_all ''loc'' sp)) [] 0
      (emit (Request sitemap_index_url) (start\<lparr>requests := Suc (requests start)\<rparr>)) = (r, sf)"
    by (simp add: main_with_cap_def get_monthly_sitemaps_eq)
  from sitemap_loop_accounted[OF acc0 this] m
  have "fresh_batches [] (trace (snd (main_with_cap w cap)))" by simp
  moreover have "flush_month w sm arts s = (Inr arts', s') \<longrightarrow> arts' = []"
    by (auto simp: flush_month_def split: if_splits sum.splits prod.splits)
  ultimately show ?thesis by simp
qed

theorem flush_clears_accumulator_witness:
  "fresh_batches [] (trace (snd (main_with_cap two_months 10000)))
   \<and> fst (main_with_cap two_months 10000) = Inr ([], 2)
   \<and> saves (snd (main_with_cap two_months 10000)) = 2"
proof -
  have "fst (main two_months) = Inr ([], 2) \<and> saves (snd (main two_months)) = 2"
    by (simp add: run_defs two_months_def two_months_net_def page_defs)
  with flush_clears_accumulator[of two_months 10000] show ?thesis
    by (simp add: main_def)
qed

subsection \<open>The cap\<close>

lemma capped_requests_append:
  "capped_requests cap n (es @ es') =
     (capped_requests cap n es \<and> capped_requests cap (n + appended_count es) es')"
  by (induction cap n es rule: capped_requests.induct) auto

lemma appended_count_append: "appended_count (es @ es') = appended_count es + appended_count es'"
  by (induction es rule: appended_count.induct) auto

lemma article_loop_capped:
  "cnt \<le> cap \<Longrightarrow> article_loop w cap us arts cnt s = (r, s') \<Longrightarrow>
     \<exists>es. trace s' = trace s @ es \<and> capped_requests cap cnt es
        \<and> cnt + appended_count es \<le> cap
        \<and> (\<forall>arts' cnt'. r = Inr (arts', cnt') \<longrightarrow> cnt' = cnt + appended_count es)"
proof (induction us arbitrary: arts cnt s)
  case Nil
  then show ?case by auto
next
  case (Cons u us)
  show ?case
  proof (cases "cap \<le> cnt")
    case True
    with Cons.prems show ?thesis by auto
  next
    case False
    let ?s1 = "emit (Request u) (s\<lparr>requests := Suc (requests s)\<rparr>)"
    show ?thesis
    proof (cases "case net w (requests s) u of Failed \<Rightarrow> None
           | Content sp \<Rightarrow> (case scrape_soup (json_loads w) u sp of Inl e \<Rightarrow> None | Inr a \<Rightarrow> Some a)")
      case None
      with False Cons.prems(2) have "article_loop w cap us arts cnt ?s1 = (r, s')"
        by (simp add: scrape_eq)
      from Cons.IH[OF Cons.prems(1) this] obtain es where
        es: "trace s' = trace ?s1 @ es" "capped_requests cap cnt es" "cnt + appended_count es \<le> cap"
          "\<forall>arts' cnt'. r = Inr (arts', cnt') \<longrightarrow> cnt' = cnt + appended_count es"
        by blast
      have "trace s' = trace s @ (Request u # es)" using es(1) by (simp add: emit_def)
      moreover have "capped_requests cap cnt (Request u # es)" using es(2) False by simp
      moreover have "appended_count (Request u # es) = appended_count es" by simp
      ultimately show ?thesis using es(3,4) by metis
    next
      case (Some a)
      with False Cons.prems(2)
      have "article_loop w cap us (arts @ [a]) (Suc cnt) (emit (Appended a) ?s1) = (r, s')"
        by (simp add: scrape_eq)
      moreover have "Suc cnt \<le> cap" using False by simp
      ultimately obtain es where
        es: "trace s' = trace (emit (Appended a) ?s1) @ es" "capped_requests cap (Suc cnt) es"
          "Suc cnt + appended_count es \<le> cap"
          "\<forall>arts' cnt'. r = Inr (arts', cnt') \<longrightarrow> cnt' = Suc cnt + appended_count es"
        using Cons.IH by blast
      have "trace s' = trace s @ (Request u # Appended a # es)" using es(1) by (simp add: emit_def)
      moreover have "capped_requests cap cnt (Request u # Appended a # es)"
        using es(2) False by simp
      moreover have "appended_count (Request u # Appended a # es) = Suc (appended_count es)" by simp
      ultimately show ?thesis using es(3,4) by (metis add_Suc add_Suc_right)
    qed
  qed
qed

lemma flush_month_capped:
  "flush_month w sm arts s = (r, s') \<Longrightarrow>
     \<exists>es. trace s' = trace s @ es \<and> capped_requests cap cnt es \<and> appended_count es = 0"
  by (auto simp: flush_month_def save_to_json_def emit_def Let_def
      split: if_splits sum.splits prod.splits)

lemma sitemap_loop_capped:
  "cnt \<le> cap \<Longrightarrow> sitemap_loop w cap sms arts cnt s = (r, s') \<Longrightarrow>
     \<exists>es. trace s' = trace s @ es \<and> capped_requests cap cnt es
        \<and> cnt + appended_count es \<le> cap
        \<and> (\<forall>arts' cnt'. r = Inr (arts', cnt') \<longrightarrow> cnt' = cnt + appended_count es)"
proof (induction sms arbitrary: arts cnt s)
  case Nil
  then show ?case by auto
next
  case (Cons sm sms)
  show ?case
  proof (cases "cap \<le> cnt")
    case True
    with Cons.prems show ?thesis by auto
  next
    case False
    let ?s1 = "emit (Request sm) (s\<lparr>requests := Suc (requests s)\<rparr>)"
    obtain urls where g: "get_article_urls w sm s = (Inr urls, ?s1)"
      by (simp add: get_article_urls_eq)
    obtain r2 s2 where a: "article_loop w cap urls arts cnt ?s1 = (r2, s2)" by fastforce
    from article_loop_capped[OF Cons.prems(1) a] obtain es2 where
      es2: "trace s2 = trace ?s1 @ es2" "capped_requests cap cnt es2"
        "cnt + appended_count es2 \<le> cap"
        "\<forall>arts' cnt'. r2 = Inr (arts', cnt') \<longrightarrow> cnt' = cnt + appended_count es2"
      by blast
    have t2: "trace s2 = trace s @ (Request sm # es2)" using es2(1) by (simp add: emit_def)
    have c2: "capped_requests cap cnt (Request sm # es2)" using es2(2) False by simp
    show ?thesis
    proof (cases r2)
      case (Inl e)
      with False g a Cons.prems(2) have "r = Inl e" "s' = s2" by auto
      with t2 c2 es2(3) show ?thesis by auto
    next
      case (Inr p)
      obtain arts2 cnt2 where p: "p = (arts2, cnt2)" by fastforce
      with Inr es2(4) have cnt2: "cnt2 = cnt + appended_count es2" by simp
      obtain r3 s3 where f: "flush_month w sm arts2 s2 = (r3, s3)" by fastforce
      from flush_month_capped[OF f, of cap cnt2] obtain es3 where
        es3: "trace s3 = trace s2 @ es3" "capped_requests cap cnt2 es3" "appended_count es3 = 0"
        by blast
      have t3: "trace s3 = trace s @ ((Request sm # es2) @ es3)" using t2 es3(1) by simp
      have c3: "capped_requests cap cnt ((Request sm # es2) @ es3)"
        using c2 es3(2) cnt2 by (simp add: capped_requests_append)
      have a3: "appended_count ((Request sm # es2) @ es3) = appended_count es2"
        using es3(3) by (simp add: appended_count_append)
      show ?thesis
      proof (cases r3)
        case (Inl e)
        with False g a Inr p f Cons.prems(2) have "r = Inl e" "s' = s3" by auto
        with t3 c3 a3 es2(3) show ?thesis by (metis sum.distinct(1))
      next
        case (Inr arts3)
        from False g a \<open>r2 = Inr p\<close> p f Inr Cons.prems(2)
        have "sitemap_loop w cap sms arts3 cnt2 s3 = (r, s')" by simp
        moreover have "cnt2 \<le> cap" using cnt2 es2(3) by simp
        ultimately obtain es4 where
          es4: "trace s' = trace s3 @ es4" "capped_requests cap cnt2 es4"
            "cnt2 + appended_count es4 \<le> cap"
            "\<forall>arts' cnt'. r = Inr (arts', cnt') \<longrightarrow> cnt' = cnt2 + appended_count es4"
          using Cons.IH by blast
        let ?es = "((Request sm # es2) @ es3) @ es4"
        have "trace s' = trace s @ ?es" using t3 es4(1) by simp
        moreover have "capped_requests cap cnt ?es"
          using c3 es4(2) a3 cnt2 by (simp add: capped_requests_append appended_count_append)
        moreover have "appended_count ?es = appended_count es2 + appended_count es4"
          using a3 by (simp add: appended_count_append)
        ultimately show ?thesis using es4(3,4) cnt2
          by (metis add.assoc)
      qed
    qed
  qed
qed

lemma flush_month_empties: "flush_month w sm arts s = (Inr arts', s') \<Longrightarrow> arts' = []"
  by (auto simp: flush_month_def split: if_splits sum.splits prod.splits)

lemma sitemap_loop_empties:
  "sitemap_loop w cap sms [] cnt s = (Inr (arts', cnt'), s') \<Longrightarrow> arts' = []"
proof (induction sms arbitrary: cnt s)
  case Nil
  then show ?case by simp
next
  case (Cons sm sms)
  show ?case
  proof (cases "cap \<le> cnt")
    case True
    with Cons.prems show ?thesis by simp
  next
    case False
    obtain urls s1 where g: "get_article_urls w sm s = (Inr urls, s1)"
      by (simp add: get_article_urls_eq)
    obtain r2 s2 where a: "article_loop w cap urls [] cnt s1 = (r2, s2)" by fastforce
    show ?thesis
    proof (cases r2)
      case (Inl e)
      with False g a Cons.prems show ?thesis by simp
    next
      case (Inr p)
      obtain arts2 cnt2 where p: "p = (arts2, cnt2)" by fastforce
      obtain r3 s3 where f: "flush_month w sm arts2 s2 = (r3, s3)" by fastforce
      show ?thesis
      proof (cases r3)
        case (Inl e)
        with False g a \<open>r2 = Inr p\<close> p f Cons.prems show ?thesis by simp
      next
        case (Inr arts3)
        with f have "arts3 = []" by (auto dest: flush_month_empties)
        with False g a \<open>r2 = Inr p\<close> p f Inr Cons.prems
        have "sitemap_loop w cap sms [] cnt2 s3 = (Inr (arts', cnt'), s')" by simp
        then show ?thesis by (rule Cons.IH)
      qed
    qed
  qed
qed

text \<open>
  In every run and for every cap: after the request for the sitemap index, a request is
  sent only while the counter is under the cap, and the counter never passes the cap.
  When \<open>main\<close> returns, the counter is the number of articles appended, the accumulator
  is empty and every appended article has been handed to \<open>save_to_json\<close>.
\<close>

lemma cap_is_respected:
  "\<exists>es. trace (snd (main_with_cap w cap)) = Request sitemap_index_url # es
      \<and> capped_requests cap 0 es \<and> appended_count es \<le> cap
      \<and> (\<forall>arts cnt. fst (main_with_cap w cap) = Inr (arts, cnt) \<longrightarrow>
            cnt = appended_count es \<and> arts = [] \<and> pending_after [] es = [])"
proof -
  let ?s1 = "emit (Request sitemap_index_url) (start\<lparr>requests := Suc (requests start)\<rparr>)"
  let ?sms = "case net w (requests start) sitemap_index_url of
         Failed \<Rightarrow> [] | Content sp \<Rightarrow> map get_text (find_all ''loc'' sp)"
  obtain r sf where m: "main_with_cap w cap = (r, sf)" by fastforce
  then have l: "sitemap_loop w cap ?sms [] 0 ?s1 = (r, sf)"
    by (simp add: main_with_cap_def get_monthly_sitemaps_eq)
  have "0 \<le> cap" by simp
  from sitemap_loop_capped[OF this l] obtain es where
    es: "trace sf = trace ?s1 @ es" "capped_requests cap 0 es" "0 + appended_count es \<le> cap"
      "\<forall>arts' cnt'. r = Inr (arts', cnt') \<longrightarrow> cnt' = 0 + appended_count es"
    by blast
  have t: "trace sf = Request sitemap_index_url # es"
    using es(1) by (simp add: emit_def start_def)
  have acc0: "accounted [] ?s1"
    by (rule accounted_request) (simp add: accounted_def start_def)
  note acc = sitemap_loop_accounted[OF acc0 l]
  have "cnt = appended_count es \<and> arts = [] \<and> pending_after [] es = []"
    if "r = Inr (arts, cnt)" for arts cnt
  proof -
    from that es(4) have "cnt = appended_count es" by simp
    moreover from that l have "arts = []" by (auto dest: sitemap_loop_empties)
    moreover from that acc have "pending_after [] (trace sf) = arts"
      by (simp add: accounted_def)
    ultimately show ?thesis using t by simp
  qed
  with t es(2,3) m show ?thesis by simp
qed

lemma locs_of_replicate:
  "map get_text (find_all ''loc'' (replicate n (Tag ''loc'' [] [NavigableString u]))) = replicate n u"
  by (induction n) (simp_all add: find_all_def)

lemma scrape_blank_page:
  "\<exists>a. scrape_soup example_loads u [] = Inr a"
  by (simp add: page_defs)

lemma full_month_articles:
  "2 \<le> requests s \<Longrightarrow> cnt + n \<le> cap \<Longrightarrow>
     \<exists>arts' s'. article_loop full_month_world cap (replicate n u) arts cnt s = (Inr (arts', cnt + n), s')
        \<and> length arts' = length arts + n
        \<and> saves s' = saves s
        \<and> appended_count (trace s') = appended_count (trace s) + n"
proof (induction n arbitrary: arts cnt s)
  case 0
  then show ?case by simp
next
  case (Suc n)
  obtain a where a: "scrape_soup example_loads u [] = Inr a"
    using scrape_blank_page by blast
  let ?s1 = "emit (Appended a) (emit (Request u) (s\<lparr>requests := Suc (requests s)\<rparr>))"
  have net: "net full_month_world (requests s) u = Content []"
    using Suc.prems(1) by (simp add: full_month_world_def steady_disk_def full_month_net_def)
  have loads: "json_loads full_month_world = example_loads"
    by (simp add: full_month_world_def steady_disk_def)
  have lt: "\<not> cap \<le> cnt" using Suc.prems(2) by simp
  have step: "article_loop full_month_world cap (replicate (Suc n) u) arts cnt s =
      article_loop full_month_world cap (replicate n u) (arts @ [a]) (Suc cnt) ?s1"
    using lt by (simp add: scrape_eq net loads a)
  have "2 \<le> requests ?s1" using Suc.prems(1) by (simp add: emit_def)
  moreover have "Suc cnt + n \<le> cap" using Suc.prems(2) by simp
  ultimately obtain arts' s' where
    r: "article_loop full_month_world cap (replicate n u) (arts @ [a]) (Suc cnt) ?s1
          = (Inr (arts', Suc cnt + n), s')"
      "length arts' = length (arts @ [a]) + n" "saves s' = saves ?s1"
      "appended_count (trace s') = appended_count (trace ?s1) + n"
    using Suc.IH by blast
  have "appended_count (trace ?s1) = Suc (appended_count (trace s))"
    by (simp add: emit_def appended_count_append)
  with r step show ?case by (simp add: emit_def)
qed

text \<open>
  C2. A run that reaches the cap and never flushes what it accumulated: the only monthly
  sitemap has a URL without a dash and lists 10000 articles, all scraped with success.
  The run appends 10000 articles, then ends with \<open>IndexError\<close> at line 145, before
  \<open>save_to_json\<close> is called once.
\<close>

theorem full_month_is_never_flushed:
  "fst (main full_month_world) = Inl IndexError
   \<and> appended_count (trace (snd (main full_month_world))) = 10000
   \<and> saves (snd (main full_month_world)) = 0"
proof -
  let ?sm = "''https://www.almayadeen.net/sitemaps/2024.xml''"
  let ?u = "''https://www.almayadeen.net/a''"
  let ?s1 = "emit (Request sitemap_index_url) (start\<lparr>requests := Suc (requests start)\<rparr>)"
  let ?s2 = "emit (Request ?sm) (?s1\<lparr>requests := Suc (requests ?s1)\<rparr>)"
  have i: "get_monthly_sitemaps full_month_world start = (Inr [?sm], ?s1)"
    by (simp add: get_monthly_sitemaps_eq full_month_world_def steady_disk_def full_month_net_def
        start_def find_all_def)
  have m: "get_article_urls full_month_world ?sm ?s1 = (Inr (replicate 10000 ?u), ?s2)"
    by (simp add: get_article_urls_eq full_month_world_def steady_disk_def full_month_net_def
        start_def emit_def locs_of_replicate)
  have "2 \<le> requests ?s2" by (simp add: start_def emit_def)
  moreover have "0 + 10000 \<le> (10000::nat)" by simp
  ultimately obtain arts' s' where
    r: "article_loop full_month_world 10000 (replicate 10000 ?u) [] 0 ?s2 = (Inr (arts', 0 + 10000), s')"
      "length arts' = length ([]::Article list) + 10000" "saves s' = saves ?s2"
      "appended_count (trace s') = appended_count (trace ?s2) + 10000"
    using full_month_articles[of ?s2 0 10000 10000 ?u "[]"] by blast
  from r(2) have ne: "arts' \<noteq> []" by auto
  have k: "month_key ?sm = Inl IndexError"
    by (simp add: month_key_def from_end_def)
  have f: "flush_month full_month_world ?sm arts' s' = (Inl IndexError, s')"
    using ne k by (simp add: flush_month_def)
  have "main full_month_world = (Inl IndexError, s')"
    using i m r(1) f by (simp add: main_def main_with_cap_def)
  moreover have "appended_count (trace ?s2) = 0" "saves ?s2 = 0"
    by (simp_all add: start_def emit_def)
  ultimately show ?thesis using r(3,4) by simp
qed

subsection \<open>The month key\<close>

lemma split_on_nonempty: "split_on sep s \<noteq> []"
  by (induction s) (auto split: list.splits)

lemma length_split_on: "length (split_on sep s) = Suc (length (filter (\<lambda>c. c = sep) s))"
  by (induction s) (auto split: list.splits simp: split_on_nonempty)

lemma remove_all_absent: "\<not> sublist old s \<Longrightarrow> remove_all old s = s"
proof (induction s)
  case Nil
  then show ?case by simp
next
  case (Cons c cs)
  then have "\<not> prefix old (c # cs)" and "\<not> sublist old cs"
    by (auto simp: sublist_Cons_right)
  with Cons.IH show ?case by simp
qed

lemma no_straddle:
  assumes "\<not> sublist ''.xml'' (c # t)"
  shows "\<not> prefix ''.xml'' (c # t @ ''.xml'')"
proof
  assume p: "prefix ''.xml'' (c # t @ ''.xml'')"
  then have c: "c = CHR ''.''" and q: "prefix ''xml'' (t @ ''.xml'')" by auto
  show False
  proof (cases t)
    case Nil
    with q show False by simp
  next
    case t1: (Cons a t')
    show False
    proof (cases t')
      case Nil
      with q t1 show False by simp
    next
      case t2: (Cons b t'')
      show False
      proof (cases t'')
        case Nil
        with q t1 t2 show False by simp
      next
        case t3: (Cons d t''')
        with q t1 t2 have "c # t = ''.xml'' @ t'''" using c by simp
        then have "sublist ''.xml'' (c # t)" by (metis sublist_append_rightI)
        with assms show False by blast
      qed
    qed
  qed
qed

lemma remove_xml_suffix: "\<not> sublist ''.xml'' t \<Longrightarrow> remove_all ''.xml'' (t @ ''.xml'') = t"
proof (induction t)
  case Nil
  then show ?case by simp
next
  case (Cons c t)
  have np: "\<not> prefix ''.xml'' (c # t @ ''.xml'')" using Cons.prems by (rule no_straddle)
  have "\<not> sublist ''.xml'' t" using Cons.prems by (auto simp: sublist_Cons_right)
  then have ih: "remove_all ''.xml'' (t @ ''.xml'') = t" by (rule Cons.IH)
  have "remove_all ''.xml'' (c # t @ ''.xml'') = c # remove_all ''.xml'' (t @ ''.xml'')"
    using np by (metis remove_all.simps(2))
  with ih show ?case by (simp only: append_Cons)
qed

lemma remove_xml_strip_suffix:
  assumes "\<not> sublist ''.xml'' (strip_suffix ''.xml'' tok)"
  shows "remove_all ''.xml'' tok = strip_suffix ''.xml'' tok"
proof (cases "suffix ''.xml'' tok")
  case True
  then obtain t where t: "tok = t @ ''.xml''" by (auto simp: suffix_def)
  then have "strip_suffix ''.xml'' tok = t" by (simp add: strip_suffix_def suffix_def)
  with assms t show ?thesis by (simp add: remove_xml_suffix)
next
  case False
  then show ?thesis using assms by (simp add: strip_suffix_def remove_all_absent)
qed

lemma month_key_dashless:
  assumes "CHR ''-'' \<notin> set u"
  shows "month_key u = Inl IndexError"
proof -
  from assms have "filter (\<lambda>c. c = CHR ''-'') u = []" by (auto simp: filter_empty_conv)
  then show ?thesis by (simp add: month_key_def from_end_def length_split_on)
qed

text \<open>
  C7, as the specification states it, fails on a URL whose last token holds \<open>.xml\<close>
  elsewhere than at its end: for a gzipped sitemap the code's month is \<open>05.gz\<close>, while
  the last token without an \<open>.xml\<close> suffix is \<open>05.xml.gz\<close>, unchanged.
\<close>

theorem month_key_is_not_suffix_stripping:
  "month_key ''https://www.almayadeen.net/sitemaps/all/sitemap-2024-05.xml.gz''
     = Inr (''2024'', ''05.gz'')
   \<and> month_key_spec ''https://www.almayadeen.net/sitemaps/all/sitemap-2024-05.xml.gz''
     = (''2024'', ''05.xml.gz'')"
  by (simp add: month_key_def month_key_spec_def from_end_def strip_suffix_def suffix_def)

text \<open>
  C7, amended. For every monthly sitemap URL with a dash in it, the month key is the
  second-to-last token of the URL split on the dash, and the last token with every
  occurrence of \<open>.xml\<close> removed. Where \<open>.xml\<close> occurs in the last token as its suffix
  only, or not at all, that is the key of the specification: the last token without
  its suffix, neither token changed otherwise.
\<close>

theorem month_key_removes_every_xml:
  assumes "CHR ''-'' \<in> set u"
  shows "month_key u =
           Inr (split_on CHR ''-'' u ! (length (split_on CHR ''-'' u) - 2),
                remove_all ''.xml'' (last (split_on CHR ''-'' u)))
     \<and> (\<not> sublist ''.xml'' (strip_suffix ''.xml'' (last (split_on CHR ''-'' u)))
          \<longrightarrow> month_key u = Inr (month_key_spec u))"
proof -
  from assms have "filter (\<lambda>c. c = CHR ''-'') u \<noteq> []"
    by (auto simp: filter_empty_conv)
  then have len: "2 \<le> length (split_on CHR ''-'' u)"
    by (cases "filter (\<lambda>c. c = CHR ''-'') u") (auto simp: length_split_on)
  then have ne: "split_on CHR ''-'' u \<noteq> []" by auto
  have key: "month_key u =
           Inr (split_on CHR ''-'' u ! (length (split_on CHR ''-'' u) - 2),
                remove_all ''.xml'' (last (split_on CHR ''-'' u)))"
    using len ne by (simp add: month_key_def from_end_def last_conv_nth)
  have "month_key u = Inr (month_key_spec u)"
    if "\<not> sublist ''.xml'' (strip_suffix ''.xml'' (last (split_on CHR ''-'' u)))"
    using key remove_xml_strip_suffix[OF that] by (simp add: month_key_spec_def Let_def)
  with key show ?thesis by blast
qed

theorem month_key_removes_every_xml_witness:
  "CHR ''-'' \<in> set ''https://www.almayadeen.net/sitemaps/all/sitemap-2024-5.xml''
   \<and> \<not> sublist ''.xml'' (strip_suffix ''.xml''
          (last (split_on CHR ''-'' ''https://www.almayadeen.net/sitemaps/all/sitemap-2024-5.xml'')))
   \<and> month_key ''https://www.almayadeen.net/sitemaps/all/sitemap-2024-5.xml''
       = Inr (''2024'', ''5'')
   \<and> month_key ''https://www.almayadeen.net/sitemaps/all/sitemap-2024-5.xml''
       = Inr (month_key_spec ''https://www.almayadeen.net/sitemaps/all/sitemap-2024-5.xml'')"
proof -
  let ?u = "''https://www.almayadeen.net/sitemaps/all/sitemap-2024-5.xml''"
  have d: "CHR ''-'' \<in> set ?u" by simp
  have n: "\<not> sublist ''.xml'' (strip_suffix ''.xml'' (last (split_on CHR ''-'' ?u)))"
    by (simp add: strip_suffix_def suffix_def sublist_Cons_right prefix_def)
  from month_key_removes_every_xml[OF d] n
  have k: "month_key ?u = Inr (month_key_spec ?u)" by blast
  then have "month_key ?u = Inr (''2024'', ''5'')"
    by (simp add: month_key_spec_def strip_suffix_def suffix_def)
  with d n k show ?thesis by blast
qed

end
